theory Spec2Isabelle
  imports Main
begin

section \<open>Access control (src/utils/security.ts)\<close>

text \<open>
  The enums \<open>PermissionLevel\<close> and \<open>OperationType\<close> and the interface
  \<open>UserPermissions\<close>. The optional fields \<open>userId\<close> and \<open>sessionId\<close> are options.
\<close>

datatype PermissionLevel = READ | WRITE | ADMIN

datatype OperationType =
    READ_WORKFLOW
  | CREATE_WORKFLOW
  | UPDATE_WORKFLOW
  | DELETE_WORKFLOW
  | EXECUTE_WORKFLOW
  | ACTIVATE_WORKFLOW
  | DEACTIVATE_WORKFLOW
  | READ_EXECUTION
  | DELETE_EXECUTION
  | MANAGE_TAGS

record UserPermissions =
  allowedInstances :: "string list"
  role :: PermissionLevel
  userId :: "string option"
  sessionId :: "string option"

text \<open>
  The three exceptions the access checks throw. \<open>InstanceNotFound\<close> is the plain
  \<open>Error\<close> of \<open>validateInstanceAccess\<close> whose message names the instance and the
  available instances; the other two are the classes \<open>InstanceAccessError\<close> and
  \<open>AuthorizationError\<close> with their constructor arguments.
\<close>

datatype access_error =
    InstanceNotFound string "string list"
  | InstanceAccessError string "string list"
  | AuthorizationError OperationType string PermissionLevel "PermissionLevel list"

fun OPERATION_PERMISSIONS :: "OperationType \<Rightarrow> PermissionLevel list" where
  "OPERATION_PERMISSIONS READ_WORKFLOW = [READ, WRITE, ADMIN]"
| "OPERATION_PERMISSIONS CREATE_WORKFLOW = [WRITE, ADMIN]"
| "OPERATION_PERMISSIONS UPDATE_WORKFLOW = [WRITE, ADMIN]"
| "OPERATION_PERMISSIONS DELETE_WORKFLOW = [ADMIN]"
| "OPERATION_PERMISSIONS EXECUTE_WORKFLOW = [WRITE, ADMIN]"
| "OPERATION_PERMISSIONS ACTIVATE_WORKFLOW = [WRITE, ADMIN]"
| "OPERATION_PERMISSIONS DEACTIVATE_WORKFLOW = [WRITE, ADMIN]"
| "OPERATION_PERMISSIONS READ_EXECUTION = [READ, WRITE, ADMIN]"
| "OPERATION_PERMISSIONS DELETE_EXECUTION = [ADMIN]"
| "OPERATION_PERMISSIONS MANAGE_TAGS = [WRITE, ADMIN]"

text \<open>
  \<open>instance\<close> has type \<open>string | undefined\<close>; the guard \<open>!instance\<close> holds for
  \<open>undefined\<close> and for the empty string. \<open>xs.includes(x)\<close> is \<open>x \<in> set xs\<close>.
\<close>

definition validateInstanceAccess ::
  "string option \<Rightarrow> string list \<Rightarrow> UserPermissions option \<Rightarrow> access_error + unit" where
  "validateInstanceAccess inst availableInstances userPermissions =
     (case inst of
        None \<Rightarrow> Inr ()
      | Some i \<Rightarrow>
          if i = [] then Inr ()
          else if i \<notin> set availableInstances then Inl (InstanceNotFound i availableInstances)
          else (case userPermissions of
                  None \<Rightarrow> Inr ()
                | Some u \<Rightarrow>
                    if i \<notin> set (allowedInstances u) \<and> ''*'' \<notin> set (allowedInstances u)
                    then Inl (InstanceAccessError i (allowedInstances u))
                    else Inr ()))"

definition validateOperationPermission ::
  "OperationType \<Rightarrow> UserPermissions option \<Rightarrow> access_error + unit" where
  "validateOperationPermission operation userPermissions =
     (case userPermissions of
        None \<Rightarrow> Inr ()
      | Some u \<Rightarrow>
          (let requiredPermissions = OPERATION_PERMISSIONS operation
           in if role u \<notin> set requiredPermissions
              then Inl (AuthorizationError operation ''unknown'' (role u) requiredPermissions)
              else Inr ()))"

text \<open>
  \<open>validateAccess\<close> runs the two statements in sequence; an exception of the first
  leaves the function before the second statement is reached.
\<close>

definition validateAccess ::
  "OperationType \<Rightarrow> string option \<Rightarrow> string list \<Rightarrow> UserPermissions option \<Rightarrow> access_error + unit" where
  "validateAccess operation inst availableInstances userPermissions =
     (case validateInstanceAccess inst availableInstances userPermissions of
        Inl e \<Rightarrow> Inl e
      | Inr _ \<Rightarrow> validateOperationPermission operation userPermissions)"

text \<open>
  The role sets in the words of the specification's permission matrix, to be compared
  with the table \<open>OPERATION_PERMISSIONS\<close> of the code.
\<close>

definition matrix_roles :: "OperationType \<Rightarrow> PermissionLevel set" where
  "matrix_roles operation =
     (if operation = READ_WORKFLOW \<or> operation = READ_EXECUTION then {READ, WRITE, ADMIN}
      else if operation = DELETE_WORKFLOW \<or> operation = DELETE_EXECUTION then {ADMIN}
      else {WRITE, ADMIN})"

section \<open>Rate limiter (src/utils/security.ts)\<close>

text \<open>
  The module-level \<open>rateLimitStore\<close> is passed in and returned; \<open>Date.now()\<close> is the
  parameter \<open>now\<close>. Counts and times are integers.
\<close>

record RateLimitEntry =
  count :: int
  resetTime :: int

record RateLimitResult =
  allowed :: bool
  remaining :: int
  resultResetTime :: int

type_synonym rate_store = "string \<rightharpoonup> RateLimitEntry"

definition checkRateLimit ::
  "int \<Rightarrow> rate_store \<Rightarrow> string \<Rightarrow> int \<Rightarrow> int \<Rightarrow> RateLimitResult \<times> rate_store" where
  "checkRateLimit now store identifier maxRequests windowMs =
     (case store identifier of
        None \<Rightarrow>
          (let newEntry = \<lparr>count = 1, resetTime = now + windowMs\<rparr>
           in (\<lparr>allowed = True, remaining = maxRequests - 1, resultResetTime = resetTime newEntry\<rparr>,
               store(identifier \<mapsto> newEntry)))
      | Some entry \<Rightarrow>
          if now > resetTime entry then
            (let newEntry = \<lparr>count = 1, resetTime = now + windowMs\<rparr>
             in (\<lparr>allowed = True, remaining = maxRequests - 1, resultResetTime = resetTime newEntry\<rparr>,
                 store(identifier \<mapsto> newEntry)))
          else if count entry \<ge> maxRequests then
            (\<lparr>allowed = False, remaining = 0, resultResetTime = resetTime entry\<rparr>, store)
          else
            (let entry' = entry\<lparr>count := count entry + 1\<rparr>
             in (\<lparr>allowed = True, remaining = maxRequests - count entry', resultResetTime = resetTime entry'\<rparr>,
                 store(identifier \<mapsto> entry'))))"

text \<open>Four calls in a row for the same identifier with the clock held at \<open>now\<close>.\<close>

definition four_calls ::
  "int \<Rightarrow> rate_store \<Rightarrow> string \<Rightarrow> int \<Rightarrow> int \<Rightarrow> RateLimitResult list \<times> rate_store list" where
  "four_calls now s0 identifier maxRequests windowMs =
     (let (r1, s1) = checkRateLimit now s0 identifier maxRequests windowMs;
          (r2, s2) = checkRateLimit now s1 identifier maxRequests windowMs;
          (r3, s3) = checkRateLimit now s2 identifier maxRequests windowMs;
          (r4, s4) = checkRateLimit now s3 identifier maxRequests windowMs
      in ([r1, r2, r3, r4], [s1, s2, s3, s4]))"

section \<open>JavaScript values\<close>

text \<open>
  The values \<open>sanitizeForLogging\<close> and the configuration validators receive: the JSON
  values and \<open>undefined\<close>. An object is the list of its own enumerable properties in
  the order of \<open>Object.entries\<close>, pairwise distinct in a value that comes from
  JavaScript; \<open>JSON.parse\<close> can give an object an own property named \<open>__proto__\<close>.
  The prototype of an object is not part of the value: two values are equal when their
  own properties are. The functions below never look at a number, so integers stand for
  them. Characters are code units below 256.
\<close>

datatype jsval =
    JUndefined
  | JNull
  | JBool bool
  | JNum int
  | JStr string
  | JArr "jsval list"
  | JObj "(string \<times> jsval) list"

text \<open>\<open>typeof v === 'object'\<close>: true of objects, arrays and \<open>null\<close>.\<close>

fun typeof_object :: "jsval \<Rightarrow> bool" where
  "typeof_object JNull = True"
| "typeof_object (JArr xs) = True"
| "typeof_object (JObj es) = True"
| "typeof_object v = False"

section \<open>Regular expressions\<close>

text \<open>
  The regular expressions of the source are terms of \<open>rexp\<close>; an atom is a character
  class. \<open>matches r s\<close> decides whether the whole of \<open>s\<close> is in the language of \<open>r\<close>
  (a pattern between \<open>^\<close> and \<open>$\<close>), by taking the derivative of \<open>r\<close> along \<open>s\<close>;
  \<open>search r s\<close> is \<open>test\<close> for a pattern with no anchor: some substring matches.
  \<open>lang\<close> is the set of strings a pattern denotes.
\<close>

datatype rexp = Zero | One | Atom "char \<Rightarrow> bool" | Alt rexp rexp | Seq rexp rexp | Star rexp

inductive_set star :: "string set \<Rightarrow> string set" for A :: "string set" where
  star_empty: "[] \<in> star A"
| star_step: "u \<in> A \<Longrightarrow> v \<in> star A \<Longrightarrow> u @ v \<in> star A"

fun lang :: "rexp \<Rightarrow> string set" where
  "lang Zero = {}"
| "lang One = {[]}"
| "lang (Atom P) = {[c] | c. P c}"
| "lang (Alt r s) = lang r \<union> lang s"
| "lang (Seq r s) = {u @ v | u v. u \<in> lang r \<and> v \<in> lang s}"
| "lang (Star r) = star (lang r)"

fun nullable :: "rexp \<Rightarrow> bool" where
  "nullable Zero = False"
| "nullable One = True"
| "nullable (Atom P) = False"
| "nullable (Alt r s) = (nullable r \<or> nullable s)"
| "nullable (Seq r s) = (nullable r \<and> nullable s)"
| "nullable (Star r) = True"

fun deriv :: "char \<Rightarrow> rexp \<Rightarrow> rexp" where
  "deriv c Zero = Zero"
| "deriv c One = Zero"
| "deriv c (Atom P) = (if P c then One else Zero)"
| "deriv c (Alt r s) = Alt (deriv c r) (deriv c s)"
| "deriv c (Seq r s) =
     (if nullable r then Alt (Seq (deriv c r) s) (deriv c s) else Seq (deriv c r) s)"
| "deriv c (Star r) = Seq (deriv c r) (Star r)"

fun matches :: "rexp \<Rightarrow> string \<Rightarrow> bool" where
  "matches r [] = nullable r"
| "matches r (c # cs) = matches (deriv c r) cs"

definition any_char :: rexp where
  "any_char = Atom (\<lambda>c. True)"

definition search :: "rexp \<Rightarrow> string \<Rightarrow> bool" where
  "search r s = matches (Seq (Star any_char) (Seq r (Star any_char))) s"

text \<open>Sequence, \<open>r+\<close>, \<open>r?\<close>, \<open>r{n}\<close>, a literal string, and a literal under the flag \<open>i\<close>.\<close>

fun seqs :: "rexp list \<Rightarrow> rexp" where
  "seqs [] = One"
| "seqs (r # rs) = Seq r (seqs rs)"

definition plus_re :: "rexp \<Rightarrow> rexp" where
  "plus_re r = Seq r (Star r)"

definition opt_re :: "rexp \<Rightarrow> rexp" where
  "opt_re r = Alt One r"

fun times_re :: "nat \<Rightarrow> rexp \<Rightarrow> rexp" where
  "times_re 0 r = One"
| "times_re (Suc n) r = Seq r (times_re n r)"

definition chr :: "char \<Rightarrow> rexp" where
  "chr c = Atom (\<lambda>x. x = c)"

definition lit :: "string \<Rightarrow> rexp" where
  "lit s = seqs (map chr s)"

text \<open>The ranges \<open>a-z\<close>, \<open>A-Z\<close> and \<open>0-9\<close> of a character class.\<close>

definition lower :: "char \<Rightarrow> bool" where
  "lower c = (c \<in> set ''abcdefghijklmnopqrstuvwxyz'')"

definition upper :: "char \<Rightarrow> bool" where
  "upper c = (c \<in> set ''ABCDEFGHIJKLMNOPQRSTUVWXYZ'')"

definition digit :: "char \<Rightarrow> bool" where
  "digit c = (c \<in> set ''0123456789'')"

definition alnum :: "char \<Rightarrow> bool" where
  "alnum c = (lower c \<or> upper c \<or> digit c)"

text \<open>
  \<open>String.prototype.toLowerCase\<close> on code units below 256: the letters A to Z and the
  Latin-1 capitals 0xC0 to 0xDE (0xD7, the multiplication sign, apart) move up by 32.
\<close>

definition upper_case_letters :: string where
  "upper_case_letters = ''ABCDEFGHIJKLMNOPQRSTUVWXYZ'' @
     [CHR 0xC0, CHR 0xC1, CHR 0xC2, CHR 0xC3, CHR 0xC4, CHR 0xC5, CHR 0xC6, CHR 0xC7,
      CHR 0xC8, CHR 0xC9, CHR 0xCA, CHR 0xCB, CHR 0xCC, CHR 0xCD, CHR 0xCE, CHR 0xCF,
      CHR 0xD0, CHR 0xD1, CHR 0xD2, CHR 0xD3, CHR 0xD4, CHR 0xD5, CHR 0xD6, CHR 0xD8,
      CHR 0xD9, CHR 0xDA, CHR 0xDB, CHR 0xDC, CHR 0xDD, CHR 0xDE]"

definition lower_case_letters :: string where
  "lower_case_letters = ''abcdefghijklmnopqrstuvwxyz'' @
     [CHR 0xE0, CHR 0xE1, CHR 0xE2, CHR 0xE3, CHR 0xE4, CHR 0xE5, CHR 0xE6, CHR 0xE7,
      CHR 0xE8, CHR 0xE9, CHR 0xEA, CHR 0xEB, CHR 0xEC, CHR 0xED, CHR 0xEE, CHR 0xEF,
      CHR 0xF0, CHR 0xF1, CHR 0xF2, CHR 0xF3, CHR 0xF4, CHR 0xF5, CHR 0xF6, CHR 0xF8,
      CHR 0xF9, CHR 0xFA, CHR 0xFB, CHR 0xFC, CHR 0xFD, CHR 0xFE]"

definition toLowerCase_char :: "char \<Rightarrow> char" where
  "toLowerCase_char c =
     (case map_of (zip upper_case_letters lower_case_letters) c of Some l \<Rightarrow> l | None \<Rightarrow> c)"

definition toLowerCase :: "string \<Rightarrow> string" where
  "toLowerCase s = map toLowerCase_char s"

text \<open>
  Under the flag \<open>i\<close> a letter of the pattern matches its two cases. The patterns with
  the flag are written in lower case.
\<close>

definition chr_i :: "char \<Rightarrow> rexp" where
  "chr_i c = Atom (\<lambda>x. x = c \<or> (lower c \<and> toLowerCase_char x = c \<and> upper x))"

definition lit_i :: "string \<Rightarrow> rexp" where
  "lit_i s = seqs (map chr_i s)"

section \<open>Credential sanitizer (logger module)\<close>

text \<open>\<open>SENSITIVE_PATTERNS\<close>, in the order of the source.\<close>

definition SENSITIVE_PATTERNS :: "rexp list" where
  "SENSITIVE_PATTERNS =
     [seqs [lit_i ''api'', opt_re (Atom (\<lambda>c. c = CHR ''_'' \<or> c = CHR ''-'')), lit_i ''key''],
      lit_i ''password'',
      lit_i ''token'',
      lit_i ''secret'',
      lit_i ''credential'',
      lit_i ''auth'',
      lit_i ''bearer'',
      lit_i ''x-api-key'',
      lit_i ''authorization'']"

text \<open>The classes \<open>[A-Za-z0-9+/]\<close> and \<open>[A-Za-z0-9+/=_-]\<close>.\<close>

definition base64_char :: "char \<Rightarrow> bool" where
  "base64_char c = (alnum c \<or> c = CHR ''+'' \<or> c = CHR ''/'')"

definition token_char :: "char \<Rightarrow> bool" where
  "token_char c = (alnum c \<or> c = CHR ''+'' \<or> c = CHR ''/'' \<or> c = CHR ''='' \<or> c = CHR ''_'' \<or> c = CHR ''-'')"

text \<open>\<open>SECRET_PATTERNS\<close>, in the order of the source; each is anchored at both ends.\<close>

definition SECRET_PATTERNS :: "rexp list" where
  "SECRET_PATTERNS =
     [seqs [lit ''sk-'', plus_re (Atom alnum)],
      seqs [times_re 32 (Atom base64_char), Star (Atom base64_char), opt_re (chr CHR ''=''), opt_re (chr CHR ''='')],
      seqs [lit ''eyJ'', plus_re (Atom base64_char), Star (chr CHR ''='')],
      seqs [lit ''AKIA'', times_re 16 (Atom (\<lambda>c. upper c \<or> digit c))],
      seqs [lit ''xox'', Atom (\<lambda>c. c \<in> set ''bpoa''), chr CHR ''-'', times_re 12 (Atom digit), chr CHR ''-'',
            times_re 12 (Atom digit), chr CHR ''-'', times_re 24 (Atom alnum)],
      seqs [lit ''ghp_'', times_re 36 (Atom alnum)],
      seqs [lit ''n8n-api-key-'', plus_re (Atom alnum)],
      seqs [plus_re (Atom alnum), chr CHR ''-'', plus_re (Atom digit), lit ''-secret-'', plus_re (Atom alnum)],
      seqs [plus_re (Atom alnum), lit ''-secret-'', plus_re (Atom alnum), chr CHR ''-'', plus_re (Atom digit)]]"

text \<open>The string branch of \<open>sanitizeForLogging\<close>.\<close>

definition sanitize_string :: "string \<Rightarrow> string" where
  "sanitize_string s =
     (if list_ex (\<lambda>pattern. matches pattern s) SECRET_PATTERNS then ''[REDACTED_STRING]''
      else if length s > 50 \<and> CHR '' '' \<notin> set s \<and> matches (plus_re (Atom token_char)) s
      then ''[REDACTED_STRING]''
      else s)"

definition isSensitive :: "string \<Rightarrow> bool" where
  "isSensitive key =
     (let keyLower = toLowerCase key
      in list_ex (\<lambda>pattern. search pattern keyLower) SENSITIVE_PATTERNS)"

text \<open>
  \<open>sanitizeForLogging(obj, depth)\<close>. Every equation starts with the depth guard, the
  first statement of the source; then come, in the order of the source, \<open>null\<close> and
  \<open>undefined\<close>, strings, the values whose \<open>typeof\<close> is not \<open>object\<close>, arrays and
  objects. The loop over \<open>Object.entries(obj)\<close> writes each key once into the new object
  \<open>sanitized\<close>, in the order of the entries. For the key \<open>__proto__\<close> the assignment
  \<open>sanitized[key] = ...\<close> runs the setter that \<open>sanitized\<close> inherits from
  \<open>Object.prototype\<close>: it changes the prototype of \<open>sanitized\<close> (or does nothing, for a
  primitive) and creates no own property, so that entry is missing from the result.
\<close>

fun sanitizeForLogging :: "jsval \<Rightarrow> int \<Rightarrow> jsval" where
  "sanitizeForLogging JNull depth =
     (if depth > 10 then JStr ''[MAX_DEPTH_REACHED]'' else JNull)"
| "sanitizeForLogging JUndefined depth =
     (if depth > 10 then JStr ''[MAX_DEPTH_REACHED]'' else JUndefined)"
| "sanitizeForLogging (JStr s) depth =
     (if depth > 10 then JStr ''[MAX_DEPTH_REACHED]'' else JStr (sanitize_string s))"
| "sanitizeForLogging (JBool b) depth =
     (if depth > 10 then JStr ''[MAX_DEPTH_REACHED]'' else JBool b)"
| "sanitizeForLogging (JNum n) depth =
     (if depth > 10 then JStr ''[MAX_DEPTH_REACHED]'' else JNum n)"
| "sanitizeForLogging (JArr xs) depth =
     (if depth > 10 then JStr ''[MAX_DEPTH_REACHED]''
      else JArr (map (\<lambda>item. sanitizeForLogging item (depth + 1)) xs))"
| "sanitizeForLogging (JObj es) depth =
     (if depth > 10 then JStr ''[MAX_DEPTH_REACHED]''
      else JObj (map (\<lambda>(key, value).
                   (key, if isSensitive key \<and> \<not> typeof_object value then JStr ''[REDACTED]''
                         else sanitizeForLogging value (depth + 1)))
                  (filter (\<lambda>(key, value). key \<noteq> ''__proto__'') es)))"

text \<open>The entries of an object that the loop stores: all but the one named \<open>__proto__\<close>.\<close>

definition stored :: "(string \<times> jsval) list \<Rightarrow> (string \<times> jsval) list" where
  "stored es = filter (\<lambda>(key, value). key \<noteq> ''__proto__'') es"

text \<open>The value \<open>v\<close> inside \<open>n\<close> objects nested under the key \<open>k\<close>.\<close>

fun nested :: "nat \<Rightarrow> string \<Rightarrow> jsval \<Rightarrow> jsval" where
  "nested 0 k v = v"
| "nested (Suc n) k v = JObj [(k, nested n k v)]"

text \<open>
  The number of container levels of a value: 0 for a leaf, one more than the deepest
  member for an array or object.
\<close>

primrec max_list :: "nat list \<Rightarrow> nat" where
  "max_list [] = 0"
| "max_list (x # xs) = max x (max_list xs)"

fun levels :: "jsval \<Rightarrow> nat" where
  "levels (JArr xs) = Suc (max_list (map levels xs))"
| "levels (JObj es) = Suc (max_list (map (\<lambda>(key, value). levels value) es))"
| "levels v = 0"

text \<open>
  \<open>sensitive_within_bound v depth\<close>: in the call \<open>sanitizeForLogging(v, depth)\<close>, no
  object that is copied at depth 10 has a sensitive key whose value is an object, an
  array or \<open>null\<close>. What lies under a key \<open>__proto__\<close> is not copied and does not count.
\<close>

fun sensitive_within_bound :: "jsval \<Rightarrow> int \<Rightarrow> bool" where
  "sensitive_within_bound (JArr xs) depth =
     (depth > 10 \<or> list_all (\<lambda>item. sensitive_within_bound item (depth + 1)) xs)"
| "sensitive_within_bound (JObj es) depth =
     (depth > 10 \<or>
      list_all (\<lambda>(key, value).
                  (isSensitive key \<and> typeof_object value \<longrightarrow> depth < 10)
                  \<and> sensitive_within_bound value (depth + 1))
               (filter (\<lambda>(key, value). key \<noteq> ''__proto__'') es))"
| "sensitive_within_bound v depth = True"

text \<open>
  The sensitive key patterns in the words of the specification: a key is sensitive when
  its lower-case form contains one of these words.
\<close>

definition sensitive_words :: "string list" where
  "sensitive_words =
     [''apikey'', ''api_key'', ''api-key'', ''password'', ''token'', ''secret'', ''credential'',
      ''auth'', ''bearer'', ''x-api-key'', ''authorization'']"

definition has_substring :: "string \<Rightarrow> string \<Rightarrow> bool" where
  "has_substring w s = (\<exists>u v. s = u @ w @ v)"

text \<open>Sample inputs.\<close>

definition sample_entries :: "(string \<times> jsval) list" where
  "sample_entries =
     [(''API_KEY'', JStr ''abc''),
      (''name'', JStr ''test-workflow''),
      (''credentials'', JObj [(''user'', JStr ''bob''), (''password'', JStr ''hunter2'')]),
      (''timeout'', JNum 30000)]"

definition sample_permissions :: jsval where
  "sample_permissions =
     JObj [(''allowedInstances'', JArr [JStr ''production'', JStr ''staging'']),
           (''role'', JStr ''admin''),
           (''userId'', JStr ''user-12345-secret-id''),
           (''credentials'', JObj [(''api_key'', JStr ''secret123''), (''user'', JStr ''bob'')]),
           (''metadata'', JObj [(''ipAddress'', JStr ''192.168.1.1'')])]"

definition deep_token :: jsval where
  "deep_token = nested 10 ''a'' (JObj [(''token'', JObj [(''id'', JNum 1)])])"

text \<open>
  An object with an own property \<open>__proto__\<close> (as \<open>JSON.parse\<close> builds it) over the same
  nesting as \<open>deep_token\<close>, one level less deep.
\<close>

definition deep_under_proto :: jsval where
  "deep_under_proto =
     JObj [(''__proto__'', nested 9 ''a'' (JObj [(''token'', JObj [(''id'', JNum 1)])])),
           (''name'', JStr ''wf'')]"

section \<open>Configuration validation (configValidation module)\<close>

text \<open>
  The schemas of \<open>configValidationSchemas\<close> are run by the library Joi, which is not
  part of the repository. The functions below follow each schema as it is declared, with
  the rules Joi applies under the options of the source, \<open>abortEarly: false\<close> and
  \<open>stripUnknown: true\<close>: every failing rule of every key adds one detail (the path of
  the value and the type of the failure), a key that the schema does not know is removed
  from the value, the rules \<open>min\<close> and \<open>max\<close> of an object are tried only when its
  members produced no detail, and the empty string is never a valid string. Two parts
  of the library are parameters: \<open>uri_ok\<close>, the test of \<open>uri({scheme: ['http', 'https']})\<close>,
  and \<open>coerce_object\<close>, the conversion Joi attempts when a string stands where an object
  is expected (the parse of a string that begins with an opening brace).
\<close>

type_synonym detail = "string list \<times> string"

record joi_lib =
  uri_ok :: "string \<Rightarrow> bool"
  coerce_object :: "string \<Rightarrow> jsval option"

text \<open>The pattern \<open>^[a-zA-Z0-9_\-]+$\<close> of environment names, API keys and \<open>defaultEnv\<close>.\<close>

definition name_pattern :: rexp where
  "name_pattern = plus_re (Atom (\<lambda>c. alnum c \<or> c = CHR ''_'' \<or> c = CHR ''-''))"

text \<open>
  The rules of \<open>n8n_host\<close>, \<open>n8n_api_key\<close> and \<open>defaultEnv\<close> on a non-empty string:
  the types of the rules that fail, in the order of the declaration. With the option
  \<open>scheme\<close>, the type Joi gives a failure of \<open>uri\<close> is \<open>string.uriCustomScheme\<close>.
\<close>

definition n8n_host_rules :: "joi_lib \<Rightarrow> string \<Rightarrow> string list" where
  "n8n_host_rules lib s = (if uri_ok lib s then [] else [''string.uriCustomScheme''])"

definition n8n_api_key_rules :: "string \<Rightarrow> string list" where
  "n8n_api_key_rules s =
     (if length s < 10 then [''string.min''] else []) @
     (if length s > 500 then [''string.max''] else []) @
     (if matches name_pattern s then [] else [''string.pattern.base''])"

definition defaultEnv_rules :: "string \<Rightarrow> string list" where
  "defaultEnv_rules s = (if matches name_pattern s then [] else [''string.pattern.base''])"

text \<open>
  \<open>Joi.string()...required()\<close> on the value of a key; \<open>None\<close> is a key that is absent.
\<close>

fun required_string :: "string list \<Rightarrow> (string \<Rightarrow> string list) \<Rightarrow> jsval option \<Rightarrow> detail list" where
  "required_string path rules None = [(path, ''any.required'')]"
| "required_string path rules (Some JUndefined) = [(path, ''any.required'')]"
| "required_string path rules (Some (JStr s)) =
     (if s = [] then [(path, ''string.empty'')] else map (\<lambda>t. (path, t)) (rules s))"
| "required_string path rules (Some v) = [(path, ''string.base'')]"

text \<open>What \<open>Joi.object()\<close> validates: the value, or the object a string converts to.\<close>

definition as_object :: "joi_lib \<Rightarrow> jsval \<Rightarrow> jsval" where
  "as_object lib v =
     (case v of
        JStr s \<Rightarrow> (case coerce_object lib s of Some v' \<Rightarrow> v' | None \<Rightarrow> v)
      | _ \<Rightarrow> v)"

text \<open>
  The object with \<open>n8n_host\<close> and \<open>n8n_api_key\<close>: the schema \<open>n8nInstance\<close>, and
  the schema of each value under \<open>environments\<close>, which declares the same rules. Neither
  is \<open>required()\<close>, so \<open>undefined\<close> passes.
\<close>

definition instance_schema :: "joi_lib \<Rightarrow> string list \<Rightarrow> jsval \<Rightarrow> detail list \<times> jsval" where
  "instance_schema lib path v =
     (case as_object lib v of
        JUndefined \<Rightarrow> ([], JUndefined)
      | JObj fs \<Rightarrow>
          (required_string (path @ [''n8n_host'']) (n8n_host_rules lib) (map_of fs ''n8n_host'') @
           required_string (path @ [''n8n_api_key'']) n8n_api_key_rules (map_of fs ''n8n_api_key''),
           JObj (filter (\<lambda>(k, x). k = ''n8n_host'' \<or> k = ''n8n_api_key'') fs))
      | v' \<Rightarrow> ([(path, ''object.base'')], v'))"

text \<open>
  \<open>environments\<close>: a required object; the keys that match the name pattern are
  validated as instances, the others are unknown keys and are removed; then at least 1
  and at most 10 keys.
\<close>

definition environments_schema :: "joi_lib \<Rightarrow> jsval option \<Rightarrow> detail list \<times> jsval" where
  "environments_schema lib p =
     (case p of
        None \<Rightarrow> ([([''environments''], ''any.required'')], JUndefined)
      | Some v \<Rightarrow>
          (case as_object lib v of
             JUndefined \<Rightarrow> ([([''environments''], ''any.required'')], JUndefined)
           | JObj es \<Rightarrow>
               (let kept = filter (\<lambda>(k, x). matches name_pattern k) es;
                    results = map (\<lambda>(k, x). (k, instance_schema lib [''environments'', k] x)) kept;
                    nested = concat (map (\<lambda>(k, r). fst r) results);
                    n = length kept
                in (if nested \<noteq> [] then nested
                    else (if n < 1 then [([''environments''], ''object.min'')] else []) @
                         (if n > 10 then [([''environments''], ''object.max'')] else []),
                    JObj (map (\<lambda>(k, r). (k, snd r)) results)))
           | v' \<Rightarrow> ([([''environments''], ''object.base'')], v')))"

text \<open>
  The schema \<open>multiInstanceConfig\<close>: \<open>environments\<close>, then \<open>defaultEnv\<close>; every
  other key is removed. The schema is not \<open>required()\<close>, so \<open>undefined\<close> passes.
\<close>

definition multiInstanceConfig_schema :: "joi_lib \<Rightarrow> jsval \<Rightarrow> detail list \<times> jsval" where
  "multiInstanceConfig_schema lib config =
     (case as_object lib config of
        JUndefined \<Rightarrow> ([], JUndefined)
      | JObj fs \<Rightarrow>
          (let e = environments_schema lib (map_of fs ''environments'')
           in (fst e @ required_string [''defaultEnv''] defaultEnv_rules (map_of fs ''defaultEnv''),
               JObj (map (\<lambda>(k, x). (k, if k = ''environments'' then snd e else x))
                      (filter (\<lambda>(k, x). k = ''environments'' \<or> k = ''defaultEnv'') fs))))
      | v' \<Rightarrow> ([([], ''object.base'')], v'))"

text \<open>
  The errors of the validators: the two \<open>Error\<close>s built from the joined messages of
  Joi's details, the \<open>Error\<close> for a default environment that is not found, the
  \<open>Error\<close> that wraps a failure of one environment, and the \<open>TypeError\<close> of
  JavaScript for reading a property of \<open>undefined\<close>.
\<close>

datatype config_error =
    InvalidMultiInstanceConfiguration "detail list"
  | DefaultEnvironmentNotFound string
  | InvalidN8NInstance "detail list"
  | EnvironmentError string config_error
  | TypeError

record MultiInstanceConfig =
  environments :: "(string \<times> jsval) list"
  defaultEnv :: string

definition validateN8NInstance :: "joi_lib \<Rightarrow> jsval \<Rightarrow> config_error + jsval" where
  "validateN8NInstance lib inst =
     (let r = instance_schema lib [] inst
      in if fst r \<noteq> [] then Inl (InvalidN8NInstance (fst r)) else Inr (snd r))"

text \<open>
  \<open>!value.environments[value.defaultEnv]\<close>: the property access finds an own property of
  the object or, when there is none of that name, a property inherited from
  \<open>Object.prototype\<close>, whose members are functions and objects, all truthy.
\<close>

fun truthy :: "jsval \<Rightarrow> bool" where
  "truthy JUndefined = False"
| "truthy JNull = False"
| "truthy (JBool b) = b"
| "truthy (JNum n) = (n \<noteq> 0)"
| "truthy (JStr s) = (s \<noteq> [])"
| "truthy (JArr xs) = True"
| "truthy (JObj es) = True"

definition Object_prototype_names :: "string list" where
  "Object_prototype_names =
     [''constructor'', ''__defineGetter__'', ''__defineSetter__'', ''hasOwnProperty'',
      ''__lookupGetter__'', ''__lookupSetter__'', ''isPrototypeOf'', ''propertyIsEnumerable'',
      ''toString'', ''valueOf'', ''__proto__'', ''toLocaleString'']"

definition truthy_property :: "(string \<times> jsval) list \<Rightarrow> string \<Rightarrow> bool" where
  "truthy_property es k =
     (case map_of es k of Some v \<Rightarrow> truthy v | None \<Rightarrow> k \<in> set Object_prototype_names)"

text \<open>The loop over \<open>Object.entries(value.environments)\<close>, left at the first failure.\<close>

fun validate_each :: "joi_lib \<Rightarrow> (string \<times> jsval) list \<Rightarrow> config_error + unit" where
  "validate_each lib [] = Inr ()"
| "validate_each lib ((envName, envConfig) # rest) =
     (case validateN8NInstance lib envConfig of
        Inl envError \<Rightarrow> Inl (EnvironmentError envName envError)
      | Inr v \<Rightarrow> validate_each lib rest)"

text \<open>
  \<open>validateMultiInstanceConfig\<close>: the schema first; then the test of the default
  environment; then every environment through \<open>validateN8NInstance\<close>; then the value
  Joi returned. After a schema validation without details the value is \<open>undefined\<close> or
  an object with an object \<open>environments\<close> and a string \<open>defaultEnv\<close>; reading
  \<open>value.environments\<close> of \<open>undefined\<close> is the TypeError.
\<close>

definition validateMultiInstanceConfig :: "joi_lib \<Rightarrow> jsval \<Rightarrow> config_error + MultiInstanceConfig" where
  "validateMultiInstanceConfig lib config =
     (let r = multiInstanceConfig_schema lib config
      in if fst r \<noteq> [] then Inl (InvalidMultiInstanceConfiguration (fst r))
         else (case snd r of
                 JObj fs \<Rightarrow>
                   (case (map_of fs ''environments'', map_of fs ''defaultEnv'') of
                      (Some (JObj es), Some (JStr d)) \<Rightarrow>
                        if \<not> truthy_property es d then Inl (DefaultEnvironmentNotFound d)
                        else (case validate_each lib es of
                                Inl e \<Rightarrow> Inl e
                              | Inr u \<Rightarrow> Inr \<lparr>environments = es, defaultEnv = d\<rparr>)
                    | other \<Rightarrow> Inl TypeError)
               | other \<Rightarrow> Inl TypeError))"

text \<open>
  Sample inputs. \<open>sample_lib\<close> accepts plain http and https host URLs and converts no
  string.
\<close>

definition sample_lib :: joi_lib where
  "sample_lib =
     \<lparr>uri_ok = (\<lambda>s. matches (seqs [lit ''http'', opt_re (chr CHR ''s''), lit ''://'', plus_re (Atom alnum),
                                   Star (Alt (Atom alnum) (chr CHR ''.'')), plus_re (Atom alnum)]) s),
      coerce_object = (\<lambda>s. None)\<rparr>"

definition good_instance :: jsval where
  "good_instance = JObj [(''n8n_host'', JStr ''https://n8n.example.com''), (''n8n_api_key'', JStr ''abcdefghij0123456789'')]"

definition constructor_config :: jsval where
  "constructor_config =
     JObj [(''environments'', JObj [(''production'', good_instance)]), (''defaultEnv'', JStr ''constructor'')]"




section \<open>Configuration encryption (src/utils/configEncryption.ts)\<close>





















section \<open>Theorems: access control\<close>

lemma set_OPERATION_PERMISSIONS: "set (OPERATION_PERMISSIONS operation) = matrix_roles operation"
  by (cases operation) (auto simp: matrix_roles_def)

text \<open>
  C1. For every operation and every supplied identity, \<open>validateOperationPermission\<close>
  throws exactly when the identity's role is outside the operation's role set of the
  permission matrix (read operations: READ, WRITE, ADMIN; delete operations: ADMIN only;
  all others: WRITE, ADMIN), and what it throws is the AuthorizationError carrying the
  operation, the role held and the roles required.
\<close>

theorem validateOperationPermission_matrix:
  "validateOperationPermission operation (Some u) =
     (if role u \<in> matrix_roles operation then Inr ()
      else Inl (AuthorizationError operation ''unknown'' (role u) (OPERATION_PERMISSIONS operation)))"
  by (simp add: validateOperationPermission_def set_OPERATION_PERMISSIONS)

theorem validateOperationPermission_matrix_witness:
  "validateOperationPermission DELETE_WORKFLOW
      (Some \<lparr>allowedInstances = [''*''], role = WRITE, userId = None, sessionId = None\<rparr>)
     = Inl (AuthorizationError DELETE_WORKFLOW ''unknown'' WRITE [ADMIN])
   \<and> validateOperationPermission DELETE_WORKFLOW
      (Some \<lparr>allowedInstances = [''*''], role = ADMIN, userId = None, sessionId = None\<rparr>)
     = Inr ()"
  using validateOperationPermission_matrix [of DELETE_WORKFLOW
          "\<lparr>allowedInstances = [''*''], role = WRITE, userId = None, sessionId = None\<rparr>"]
        validateOperationPermission_matrix [of DELETE_WORKFLOW
          "\<lparr>allowedInstances = [''*''], role = ADMIN, userId = None, sessionId = None\<rparr>"]
  by (simp add: matrix_roles_def)

text \<open>
  C2 (as amended). For every non-empty instance name that is in \<open>availableInstances\<close>
  and every supplied identity, \<open>validateInstanceAccess\<close> throws InstanceAccessError
  exactly when the identity's \<open>allowedInstances\<close> holds neither the name nor \<open>*\<close>. With
  no identity and the name in \<open>availableInstances\<close> it does not throw; a non-empty name
  outside \<open>availableInstances\<close> gets the not-found error with or without an identity;
  with no instance, or the empty name, it does not throw.
\<close>

theorem validateInstanceAccess_cases:
  "(i \<noteq> [] \<and> i \<in> set availableInstances \<longrightarrow>
      validateInstanceAccess (Some i) availableInstances (Some u) =
        (if i \<notin> set (allowedInstances u) \<and> ''*'' \<notin> set (allowedInstances u)
         then Inl (InstanceAccessError i (allowedInstances u)) else Inr ()))
   \<and> (i \<in> set availableInstances \<longrightarrow>
      validateInstanceAccess (Some i) availableInstances None = Inr ())
   \<and> (i \<noteq> [] \<and> i \<notin> set availableInstances \<longrightarrow>
      validateInstanceAccess (Some i) availableInstances p = Inl (InstanceNotFound i availableInstances))
   \<and> validateInstanceAccess None availableInstances p = Inr ()
   \<and> validateInstanceAccess (Some []) availableInstances p = Inr ()"
  by (simp add: validateInstanceAccess_def)

theorem validateInstanceAccess_cases_witness:
  "validateInstanceAccess (Some ''staging'') [''production'', ''staging'']
      (Some \<lparr>allowedInstances = [''production''], role = READ, userId = None, sessionId = None\<rparr>)
     = Inl (InstanceAccessError ''staging'' [''production''])
   \<and> validateInstanceAccess (Some ''staging'') [''production'', ''staging'']
      (Some \<lparr>allowedInstances = [''*''], role = READ, userId = None, sessionId = None\<rparr>)
     = Inr ()
   \<and> validateInstanceAccess (Some ''staging'') [''production'', ''staging''] None = Inr ()
   \<and> validateInstanceAccess (Some ''ghost'') [''production'', ''staging''] None
     = Inl (InstanceNotFound ''ghost'' [''production'', ''staging''])"
  using validateInstanceAccess_cases [of "''staging''" "[''production'', ''staging'']"
          "\<lparr>allowedInstances = [''production''], role = READ, userId = None, sessionId = None\<rparr>"]
        validateInstanceAccess_cases [of "''staging''" "[''production'', ''staging'']"
          "\<lparr>allowedInstances = [''*''], role = READ, userId = None, sessionId = None\<rparr>"]
        validateInstanceAccess_cases [of "''ghost''" "[''production'', ''staging'']" _ None]
  by simp

text \<open>
  C2 as stated fails twice. With no identity, a request for an instance that is not
  available is answered with the not-found error; and the empty instance name, present
  in \<open>availableInstances\<close> and in no entry of the identity's \<open>allowedInstances\<close>, is let
  through by the guard \<open>!instance\<close>.
\<close>

theorem validateInstanceAccess_counterexample:
  "validateInstanceAccess (Some ''ghost'') [''production'', ''staging''] None
     = Inl (InstanceNotFound ''ghost'' [''production'', ''staging''])
   \<and> validateInstanceAccess (Some []) [[], ''production'']
        (Some \<lparr>allowedInstances = [''production''], role = READ, userId = None, sessionId = None\<rparr>)
     = Inr ()"
  by (simp add: validateInstanceAccess_def)

text \<open>
  C3. \<open>validateAccess\<close> checks the instance first: when \<open>validateInstanceAccess\<close>
  throws, \<open>validateAccess\<close> throws that same error whatever the operation is, and when
  it passes, the outcome of \<open>validateAccess\<close> is the outcome of
  \<open>validateOperationPermission\<close>.
\<close>

theorem validateAccess_instance_first:
  "(validateInstanceAccess inst availableInstances p = Inl e \<longrightarrow>
      validateAccess operation inst availableInstances p = Inl e)
   \<and> (validateInstanceAccess inst availableInstances p = Inr () \<longrightarrow>
      validateAccess operation inst availableInstances p = validateOperationPermission operation p)"
  by (simp add: validateAccess_def)

theorem validateAccess_instance_first_witness:
  "validateAccess CREATE_WORKFLOW (Some ''prod'') [''prod'', ''stage'']
      (Some \<lparr>allowedInstances = [''stage''], role = WRITE, userId = None, sessionId = None\<rparr>)
     = Inl (InstanceAccessError ''prod'' [''stage''])
   \<and> validateAccess CREATE_WORKFLOW (Some ''stage'') [''prod'', ''stage'']
      (Some \<lparr>allowedInstances = [''stage''], role = WRITE, userId = None, sessionId = None\<rparr>)
     = Inr ()
   \<and> validateAccess DELETE_WORKFLOW (Some ''prod'') [''prod'', ''stage'']
      (Some \<lparr>allowedInstances = [''stage''], role = WRITE, userId = None, sessionId = None\<rparr>)
     = Inl (InstanceAccessError ''prod'' [''stage''])
   \<and> validateAccess DELETE_WORKFLOW (Some ''stage'') [''prod'', ''stage'']
      (Some \<lparr>allowedInstances = [''stage''], role = WRITE, userId = None, sessionId = None\<rparr>)
     = Inl (AuthorizationError DELETE_WORKFLOW ''unknown'' WRITE [ADMIN])"
proof -
  let ?u = "\<lparr>allowedInstances = [''stage''], role = WRITE, userId = None, sessionId = None\<rparr>"
  let ?av = "[''prod'', ''stage'']"
  have i1: "validateInstanceAccess (Some ''prod'') ?av (Some ?u) = Inl (InstanceAccessError ''prod'' [''stage''])"
    by (simp add: validateInstanceAccess_def)
  have i2: "validateInstanceAccess (Some ''stage'') ?av (Some ?u) = Inr ()"
    by (simp add: validateInstanceAccess_def)
  have o1: "validateOperationPermission CREATE_WORKFLOW (Some ?u) = Inr ()"
    by (simp add: validateOperationPermission_def)
  have o2: "validateOperationPermission DELETE_WORKFLOW (Some ?u)
              = Inl (AuthorizationError DELETE_WORKFLOW ''unknown'' WRITE [ADMIN])"
    by (simp add: validateOperationPermission_def)
  show ?thesis
    using validateAccess_instance_first [of "Some ''prod''" ?av "Some ?u" "InstanceAccessError ''prod'' [''stage'']" CREATE_WORKFLOW]
          validateAccess_instance_first [of "Some ''stage''" ?av "Some ?u" _ CREATE_WORKFLOW]
          validateAccess_instance_first [of "Some ''prod''" ?av "Some ?u" "InstanceAccessError ''prod'' [''stage'']" DELETE_WORKFLOW]
          validateAccess_instance_first [of "Some ''stage''" ?av "Some ?u" _ DELETE_WORKFLOW]
          i1 i2 o1 o2
    by simp
qed

section \<open>Theorems: rate limiter\<close>

text \<open>
  C6. From a store with no entry for \<open>u\<close> and with the clock held at \<open>now\<close>, four calls
  of \<open>checkRateLimit(u, 3, 60000)\<close> answer allowed with 2, 1 and 0 remaining and then
  refused with 0 remaining; the store after the fourth call is the store after the third,
  whose entry for \<open>u\<close> has count 3 and resetTime \<open>now + 60000\<close>.
\<close>

theorem checkRateLimit_four_calls:
  assumes "s0 ''u'' = None"
  shows "four_calls now s0 ''u'' 3 60000 =
    ([\<lparr>allowed = True, remaining = 2, resultResetTime = now + 60000\<rparr>,
      \<lparr>allowed = True, remaining = 1, resultResetTime = now + 60000\<rparr>,
      \<lparr>allowed = True, remaining = 0, resultResetTime = now + 60000\<rparr>,
      \<lparr>allowed = False, remaining = 0, resultResetTime = now + 60000\<rparr>],
     [s0(''u'' \<mapsto> \<lparr>count = 1, resetTime = now + 60000\<rparr>),
      s0(''u'' \<mapsto> \<lparr>count = 2, resetTime = now + 60000\<rparr>),
      s0(''u'' \<mapsto> \<lparr>count = 3, resetTime = now + 60000\<rparr>),
      s0(''u'' \<mapsto> \<lparr>count = 3, resetTime = now + 60000\<rparr>)])"
  using assms by (simp add: four_calls_def checkRateLimit_def)

theorem checkRateLimit_four_calls_witness:
  "four_calls 1000 Map.empty ''u'' 3 60000 =
    ([\<lparr>allowed = True, remaining = 2, resultResetTime = 61000\<rparr>,
      \<lparr>allowed = True, remaining = 1, resultResetTime = 61000\<rparr>,
      \<lparr>allowed = True, remaining = 0, resultResetTime = 61000\<rparr>,
      \<lparr>allowed = False, remaining = 0, resultResetTime = 61000\<rparr>],
     [[''u'' \<mapsto> \<lparr>count = 1, resetTime = 61000\<rparr>],
      [''u'' \<mapsto> \<lparr>count = 2, resetTime = 61000\<rparr>],
      [''u'' \<mapsto> \<lparr>count = 3, resetTime = 61000\<rparr>],
      [''u'' \<mapsto> \<lparr>count = 3, resetTime = 61000\<rparr>]])"
  using checkRateLimit_four_calls [of Map.empty 1000] by simp

section \<open>Theorems: regular expressions\<close>

text \<open>The matcher decides the language of a pattern, and \<open>search\<close> finds a substring in it.\<close>

lemma star_cons:
  "(c # w \<in> star A) = (\<exists>u v. w = u @ v \<and> c # u \<in> A \<and> v \<in> star A)"
proof
  assume "c # w \<in> star A"
  then show "\<exists>u v. w = u @ v \<and> c # u \<in> A \<and> v \<in> star A"
  proof (induction "c # w" arbitrary: w rule: star.induct)
    case (star_step u v)
    show ?case
    proof (cases u)
      case Nil
      with star_step show ?thesis by simp
    next
      case (Cons a u')
      with star_step show ?thesis by auto
    qed
  qed
next
  assume "\<exists>u v. w = u @ v \<and> c # u \<in> A \<and> v \<in> star A"
  then obtain u v where "w = u @ v" "c # u \<in> A" "v \<in> star A" by blast
  then have "(c # u) @ v \<in> star A" by (intro star_step)
  then show "c # w \<in> star A" using \<open>w = u @ v\<close> by simp
qed

lemma nullable_lang: "nullable r = ([] \<in> lang r)"
  by (induction r) (auto intro: star_empty)

lemma deriv_lang: "(w \<in> lang (deriv c r)) = (c # w \<in> lang r)"
proof (induction r arbitrary: w)
  case (Seq r s)
  show ?case
  proof
    assume "w \<in> lang (deriv c (Seq r s))"
    then show "c # w \<in> lang (Seq r s)"
      using Seq by (auto simp: nullable_lang split: if_splits) (metis append_Cons append_Nil)+
  next
    assume "c # w \<in> lang (Seq r s)"
    then obtain u v where uv: "c # w = u @ v" "u \<in> lang r" "v \<in> lang s" by auto
    show "w \<in> lang (deriv c (Seq r s))"
    proof (cases u)
      case Nil
      with uv Seq show ?thesis by (auto simp: nullable_lang)
    next
      case (Cons a u')
      with uv Seq have "u' \<in> lang (deriv c r)" "w = u' @ v" by auto
      with uv show ?thesis by auto
    qed
  qed
next
  case (Star r)
  then show ?case by (auto simp: star_cons)
qed auto

lemma matches_lang: "matches r s = (s \<in> lang r)"
  by (induction s arbitrary: r) (simp_all add: nullable_lang deriv_lang)

lemma lang_Star_any: "w \<in> lang (Star any_char)"
proof (induction w)
  case Nil
  then show ?case by (simp add: star_empty)
next
  case (Cons c w)
  have "[c] \<in> lang any_char" by (simp add: any_char_def)
  with Cons have "[c] @ w \<in> star (lang any_char)" by (intro star_step) simp_all
  then show ?case by simp
qed

lemma search_lang: "search r s = (\<exists>u w v. s = u @ w @ v \<and> w \<in> lang r)"
  unfolding search_def matches_lang
  using lang_Star_any by auto


lemma lit_i_self: "w \<in> lang (lit_i w)"
proof (induction w)
  case Nil
  then show ?case by (simp add: lit_i_def)
next
  case (Cons a w)
  have "[a] \<in> lang (chr_i a)" by (simp add: chr_i_def)
  with Cons have "[a] @ w \<in> lang (Seq (chr_i a) (lit_i w))" unfolding lang.simps by blast
  then show ?case by (simp add: lit_i_def)
qed

lemma lit_i_no_upper:
  "x \<in> lang (lit_i w) \<Longrightarrow> \<forall>c \<in> set x. \<not> upper c \<Longrightarrow> x = w"
proof (induction w arbitrary: x)
  case Nil
  then show ?case by (simp add: lit_i_def)
next
  case (Cons a w)
  from Cons.prems(1) obtain c v where x: "x = c # v" and c: "c = a \<or> (lower a \<and> toLowerCase_char c = a \<and> upper c)"
    and v: "v \<in> lang (lit_i w)"
    by (auto simp: lit_i_def chr_i_def)
  from Cons.prems(2) x have "\<not> upper c" "\<forall>c \<in> set v. \<not> upper c" by auto
  with c v Cons.IH show ?case using x by auto
qed

lemma upper_table_len: "length upper_case_letters = length lower_case_letters"
  by (simp add: upper_case_letters_def lower_case_letters_def)

lemma upper_in_table: "upper c \<Longrightarrow> c \<in> set upper_case_letters"
  unfolding upper_def upper_case_letters_def set_append by (rule UnI1)

lemma lower_table_no_upper: "l \<in> set lower_case_letters \<Longrightarrow> \<not> upper l"
  unfolding upper_def lower_case_letters_def by auto

lemma toLowerCase_no_upper: "\<not> upper (toLowerCase_char c)"
proof (cases "map_of (zip upper_case_letters lower_case_letters) c")
  case None
  then have "c \<notin> set upper_case_letters"
    by (simp add: map_of_zip_is_None [OF upper_table_len])
  then have "\<not> upper c" using upper_in_table by blast
  with None show ?thesis by (simp add: toLowerCase_char_def)
next
  case (Some l)
  then have "(c, l) \<in> set (zip upper_case_letters lower_case_letters)" by (rule map_of_SomeD)
  then have "l \<in> set lower_case_letters" by (rule set_zip_rightD)
  then have "\<not> upper l" by (rule lower_table_no_upper)
  with Some show ?thesis by (simp add: toLowerCase_char_def)
qed


lemma search_lit_i:
  assumes "\<forall>c \<in> set s. \<not> upper c"
  shows "search (lit_i w) s = has_substring w s"
proof
  assume "search (lit_i w) s"
  then obtain u x v where s: "s = u @ x @ v" and x: "x \<in> lang (lit_i w)"
    unfolding search_lang by blast
  from s assms have "\<forall>c \<in> set x. \<not> upper c" by auto
  with x have "x = w" by (rule lit_i_no_upper)
  with s show "has_substring w s" by (auto simp: has_substring_def)
next
  assume "has_substring w s"
  then show "search (lit_i w) s"
    using lit_i_self [of w] by (auto simp: search_lang has_substring_def)
qed

lemma search_api_key:
  assumes "\<forall>c \<in> set s. \<not> upper c"
  shows "search (seqs [lit_i ''api'', opt_re (Atom (\<lambda>c. c = CHR ''_'' \<or> c = CHR ''-'')), lit_i ''key'']) s
         = (has_substring ''apikey'' s \<or> has_substring ''api_key'' s \<or> has_substring ''api-key'' s)"
    (is "search ?p s = ?rhs")
proof
  assume "search ?p s"
  then obtain u x v where s: "s = u @ x @ v" and x: "x \<in> lang ?p"
    unfolding search_lang by blast
  from x obtain a m k where xs: "x = a @ m @ k" and a: "a \<in> lang (lit_i ''api'')"
    and m: "m = [] \<or> m = ''_'' \<or> m = ''-''" and k: "k \<in> lang (lit_i ''key'')"
    by (auto simp: opt_re_def)
  from s xs assms have "\<forall>c \<in> set a. \<not> upper c" "\<forall>c \<in> set k. \<not> upper c" by auto
  with a k have "a = ''api''" "k = ''key''" by (auto dest: lit_i_no_upper)
  with xs m have "x = ''apikey'' \<or> x = ''api_key'' \<or> x = ''api-key''" by auto
  with s show ?rhs unfolding has_substring_def by blast
next
  have l: "''apikey'' \<in> lang ?p" "''api_key'' \<in> lang ?p" "''api-key'' \<in> lang ?p"
    unfolding matches_lang [symmetric] by code_simp+
  assume ?rhs
  then obtain w u v where "s = u @ w @ v" "w \<in> lang ?p"
    using l unfolding has_substring_def by blast
  then show "search ?p s" unfolding search_lang by blast
qed

lemma isSensitive_words:
  "isSensitive key = (\<exists>w \<in> set sensitive_words. has_substring w (toLowerCase key))"
proof -
  have nu: "\<forall>c \<in> set (toLowerCase key). \<not> upper c"
    by (auto simp: toLowerCase_def toLowerCase_no_upper)
  show ?thesis
    unfolding isSensitive_def Let_def SENSITIVE_PATTERNS_def sensitive_words_def list_ex_Cons_iff list_ex_Nil_iff
      search_lit_i [OF nu] search_api_key [OF nu]
    by simp
qed


section \<open>Theorems: credential sanitizer\<close>

text \<open>
  The object branch: the entries other than \<open>__proto__\<close>, in their order, a sensitive
  key whose value has a \<open>typeof\<close> other than \<open>object\<close> redacted and every other value
  sanitized one level deeper (lemma \<open>sanitize_object\<close>).
\<close>

lemma depth_guard: "10 < depth \<Longrightarrow> sanitizeForLogging v depth = JStr ''[MAX_DEPTH_REACHED]''"
  by (cases v) simp_all

lemma sanitize_string_sentinels:
  "sanitize_string ''[REDACTED]'' = ''[REDACTED]''"
  "sanitize_string ''[REDACTED_STRING]'' = ''[REDACTED_STRING]''"
  "sanitize_string ''[MAX_DEPTH_REACHED]'' = ''[MAX_DEPTH_REACHED]''"
  by code_simp+

lemma sanitize_string_idem: "sanitize_string (sanitize_string s) = sanitize_string s"
proof (cases "sanitize_string s = s")
  case True
  then show ?thesis by simp
next
  case False
  then have "sanitize_string s = ''[REDACTED_STRING]''"
    by (auto simp: sanitize_string_def split: if_splits)
  then show ?thesis by (simp add: sanitize_string_sentinels)
qed

lemma typeof_object_sanitize:
  "typeof_object (sanitizeForLogging v depth) = (typeof_object v \<and> depth \<le> 10)"
  by (cases v) auto

lemma stored_map_stored:
  "stored (map (\<lambda>(k, v). (k, f k v)) (stored es)) = map (\<lambda>(k, v). (k, f k v)) (stored es)"
  unfolding stored_def by (induction es) auto

lemma sanitize_object:
  "sanitizeForLogging (JObj es) depth =
     (if depth > 10 then JStr ''[MAX_DEPTH_REACHED]''
      else JObj (map (\<lambda>(key, value).
                   (key, if isSensitive key \<and> \<not> typeof_object value then JStr ''[REDACTED]''
                         else sanitizeForLogging value (depth + 1)))
                  (stored es)))"
  by (simp add: stored_def)

lemma within_bound_object:
  "sensitive_within_bound (JObj es) depth =
     (depth > 10 \<or>
      (\<forall>(key, value) \<in> set (stored es).
          (isSensitive key \<and> typeof_object value \<longrightarrow> depth < 10)
          \<and> sensitive_within_bound value (depth + 1)))"
  by (simp add: stored_def list_all_iff)

lemma idem_if:
  "sensitive_within_bound v depth \<Longrightarrow>
     sanitizeForLogging (sanitizeForLogging v depth) depth = sanitizeForLogging v depth"
proof (induction v depth rule: sanitizeForLogging.induct)
  case (6 xs depth)
  then show ?case by (auto simp: list_all_iff)
next
  case (7 es depth)
  show ?case
  proof (cases "10 < depth")
    case True
    then show ?thesis by simp
  next
    case False
    let ?g = "\<lambda>(key, value). (key, if isSensitive key \<and> \<not> typeof_object value then JStr ''[REDACTED]''
                         else sanitizeForLogging value (depth + 1))"
    have step: "?g (?g e) = ?g e" if e: "e \<in> set (stored es)" for e
    proof -
      obtain key "value" where ekv: "e = (key, value)" by (cases e)
      from "7.prems" have "depth > 10 \<or>
          (\<forall>(key, value) \<in> set (stored es).
              (isSensitive key \<and> typeof_object value \<longrightarrow> depth < 10)
              \<and> sensitive_within_bound value (depth + 1))"
        unfolding within_bound_object .
      with False e ekv have b: "isSensitive key \<and> typeof_object value \<longrightarrow> depth < 10"
        and s: "sensitive_within_bound value (depth + 1)"
        by auto
      from e ekv have kv: "(key, value) \<in> set (filter (\<lambda>(key, value). key \<noteq> ''__proto__'') es)"
        by (simp add: stored_def)
      show ?thesis
      proof (cases "isSensitive key \<and> \<not> typeof_object value")
        case True
        then show ?thesis using ekv by simp
      next
        case nred: False
        from "7.IH"[OF False kv refl nred s]
        have ih: "sanitizeForLogging (sanitizeForLogging value (depth + 1)) (depth + 1)
                    = sanitizeForLogging value (depth + 1)" .
        show ?thesis using nred b ih ekv by (auto simp: typeof_object_sanitize)
      qed
    qed
    have "sanitizeForLogging (sanitizeForLogging (JObj es) depth) depth
            = JObj (map ?g (stored (map ?g (stored es))))"
      using False by (simp only: sanitize_object if_False)
    also have "stored (map ?g (stored es)) = map ?g (stored es)"
      by (rule stored_map_stored)
    also have "map ?g (map ?g (stored es)) = map ?g (stored es)"
      using step by (simp add: comp_def)
    finally show ?thesis using False by (simp only: sanitize_object if_False)
  qed
qed (simp_all add: sanitize_string_idem)

lemma map_neq: "x \<in> set xs \<Longrightarrow> f x \<noteq> g x \<Longrightarrow> map f xs \<noteq> map g xs"
  by (induction xs) auto

lemma idem_only_if:
  "\<not> sensitive_within_bound v depth \<Longrightarrow>
     sanitizeForLogging (sanitizeForLogging v depth) depth \<noteq> sanitizeForLogging v depth"
proof (induction v depth rule: sanitizeForLogging.induct)
  case (6 xs depth)
  then have d: "\<not> 10 < depth" and "\<not> list_all (\<lambda>item. sensitive_within_bound item (depth + 1)) xs"
    by auto
  then obtain x where x: "x \<in> set xs" "\<not> sensitive_within_bound x (depth + 1)"
    by (auto simp: list_all_iff)
  from "6.IH"[OF d x] have
    "sanitizeForLogging (sanitizeForLogging x (depth + 1)) (depth + 1) \<noteq> sanitizeForLogging x (depth + 1)" .
  with x(1) have "map (\<lambda>item. sanitizeForLogging (sanitizeForLogging item (depth + 1)) (depth + 1)) xs
                  \<noteq> map (\<lambda>item. sanitizeForLogging item (depth + 1)) xs"
    by (rule map_neq)
  then show ?case using d by (simp add: comp_def)
next
  case (7 es depth)
  then have d: "\<not> 10 < depth" by auto
  let ?g = "\<lambda>(key, value). (key, if isSensitive key \<and> \<not> typeof_object value then JStr ''[REDACTED]''
                         else sanitizeForLogging value (depth + 1))"
  from "7.prems" d have "\<exists>e \<in> set (stored es). \<not> (\<lambda>(key, value).
        (isSensitive key \<and> typeof_object value \<longrightarrow> depth < 10)
        \<and> sensitive_within_bound value (depth + 1)) e"
    unfolding within_bound_object by blast
  then obtain e where e: "e \<in> set (stored es)" "\<not> (\<lambda>(key, value).
        (isSensitive key \<and> typeof_object value \<longrightarrow> depth < 10)
        \<and> sensitive_within_bound value (depth + 1)) e"
    by blast
  obtain key "value" where ekv: "e = (key, value)" by (cases e)
  from e ekv have kv: "(key, value) \<in> set (filter (\<lambda>(key, value). key \<noteq> ''__proto__'') es)"
    and bad: "(isSensitive key \<and> typeof_object value \<and> \<not> depth < 10) \<or> \<not> sensitive_within_bound value (depth + 1)"
    by (auto simp: stored_def)
  have "?g (?g (key, value)) \<noteq> ?g (key, value)"
  proof (cases "isSensitive key \<and> typeof_object value \<and> \<not> depth < 10")
    case True
    with d have "depth + 1 > 10" by simp
    then show ?thesis using True by (simp add: depth_guard)
  next
    case False
    with bad have ns: "\<not> sensitive_within_bound value (depth + 1)" by simp
    then have obj: "typeof_object value" by (cases "value") auto
    from ns have d1: "depth + 1 \<le> 10" by (cases "value") auto
    have nred: "\<not> (isSensitive key \<and> \<not> typeof_object value)" using obj by simp
    from "7.IH"[OF d kv refl nred ns] show ?thesis
      using obj d1 by (simp add: typeof_object_sanitize)
  qed
  with e(1) ekv have neq: "map (\<lambda>e. ?g (?g e)) (stored es) \<noteq> map ?g (stored es)"
    using map_neq [of "(key, value)" "stored es" "\<lambda>e. ?g (?g e)" ?g] by blast
  have "sanitizeForLogging (sanitizeForLogging (JObj es) depth) depth
          = JObj (map ?g (stored (map ?g (stored es))))"
    using d by (simp only: sanitize_object if_False)
  also have "stored (map ?g (stored es)) = map ?g (stored es)"
    by (rule stored_map_stored)
  finally have "sanitizeForLogging (sanitizeForLogging (JObj es) depth) depth
          = JObj (map (\<lambda>e. ?g (?g e)) (stored es))"
    by (simp add: comp_def)
  moreover have "sanitizeForLogging (JObj es) depth = JObj (map ?g (stored es))"
    using d by (simp only: sanitize_object if_False)
  ultimately show ?case using neq by simp
qed simp_all

lemma max_list_le: "(\<And>x. x \<in> set xs \<Longrightarrow> x \<le> n) \<Longrightarrow> max_list xs \<le> n"
  by (induction xs) auto

lemma le_max_list: "x \<in> set xs \<Longrightarrow> x \<le> max_list xs"
  by (induction xs) auto

lemma levels_bound:
  "depth \<le> 11 \<Longrightarrow> levels (sanitizeForLogging v depth) \<le> nat (11 - depth)"
proof (induction v depth rule: sanitizeForLogging.induct)
  case (6 xs depth)
  show ?case
  proof (cases "10 < depth")
    case True then show ?thesis by simp
  next
    case False
    have "max_list (map levels (map (\<lambda>item. sanitizeForLogging item (depth + 1)) xs)) \<le> nat (10 - depth)"
    proof (rule max_list_le)
      fix n assume "n \<in> set (map levels (map (\<lambda>item. sanitizeForLogging item (depth + 1)) xs))"
      then obtain x where x: "x \<in> set xs" and n: "n = levels (sanitizeForLogging x (depth + 1))"
        by auto
      from "6.IH"[OF False x] False have "levels (sanitizeForLogging x (depth + 1)) \<le> nat (11 - (depth + 1))"
        by simp
      then show "n \<le> nat (10 - depth)" using n by simp
    qed
    then show ?thesis using False by simp
  qed
next
  case (7 es depth)
  show ?case
  proof (cases "10 < depth")
    case True then show ?thesis by simp
  next
    case False
    let ?g = "\<lambda>(key, value). (key, if isSensitive key \<and> \<not> typeof_object value then JStr ''[REDACTED]''
                         else sanitizeForLogging value (depth + 1))"
    have "max_list (map (\<lambda>(key, value). levels value) (map ?g (stored es))) \<le> nat (10 - depth)"
    proof (rule max_list_le)
      fix n assume "n \<in> set (map (\<lambda>(key, value). levels value) (map ?g (stored es)))"
      then obtain key "value" where kv: "(key, value) \<in> set (stored es)"
        and n: "n = levels (if isSensitive key \<and> \<not> typeof_object value then JStr ''[REDACTED]''
                         else sanitizeForLogging value (depth + 1))"
        by auto
      from kv have kv': "(key, value) \<in> set (filter (\<lambda>(key, value). key \<noteq> ''__proto__'') es)"
        by (simp add: stored_def)
      show "n \<le> nat (10 - depth)"
      proof (cases "isSensitive key \<and> \<not> typeof_object value")
        case True then show ?thesis using n by simp
      next
        case nred: False
        from "7.IH"[OF False kv' refl nred] False
        have "levels (sanitizeForLogging value (depth + 1)) \<le> nat (11 - (depth + 1))" by simp
        then show ?thesis using n nred by auto
      qed
    qed
    then show ?thesis using False by (simp only: sanitize_object if_False levels.simps)
  qed
qed simp_all

lemma shallow_within_bound:
  "int (levels v) + depth \<le> 10 \<Longrightarrow> sensitive_within_bound v depth"
proof (induction v arbitrary: depth)
  case (JArr xs)
  have "\<And>x. x \<in> set xs \<Longrightarrow> sensitive_within_bound x (depth + 1)"
  proof -
    fix x assume x: "x \<in> set xs"
    then have "levels x \<le> max_list (map levels xs)" by (simp add: le_max_list)
    with JArr.prems have "int (levels x) + (depth + 1) \<le> 10" by simp
    with JArr.IH x show "sensitive_within_bound x (depth + 1)" by blast
  qed
  then show ?case by (simp add: list_all_iff)
next
  case (JObj es)
  have "\<And>key value. (key, value) \<in> set es \<Longrightarrow> depth < 10 \<and> sensitive_within_bound value (depth + 1)"
  proof -
    fix key "value" assume kv: "(key, value) \<in> set es"
    then have "levels value \<in> set (map (\<lambda>(key, value). levels value) es)" by force
    then have "levels value \<le> max_list (map (\<lambda>(key, value). levels value) es)" by (rule le_max_list)
    with JObj.prems have b: "int (levels value) + (depth + 1) \<le> 10" by simp
    from kv have "value \<in> Basic_BNFs.snds (key, value)" "(key, value) \<in> set es" by auto
    with JObj.IH b have "sensitive_within_bound value (depth + 1)" by blast
    with b show "depth < 10 \<and> sensitive_within_bound value (depth + 1)" by simp
  qed
  then show ?case unfolding within_bound_object by (auto simp: stored_def)
qed simp_all

text \<open>
  On the sample object the sensitive key \<open>API_KEY\<close> is redacted, \<open>name\<close> and \<open>timeout\<close>
  are kept, and the container \<open>credentials\<close> is entered: its \<open>user\<close> stays visible, its
  \<open>password\<close> is redacted.
\<close>

lemma sanitizeForLogging_sample:
  "sanitizeForLogging (JObj sample_entries) 0
     = JObj [(''API_KEY'', JStr ''[REDACTED]''),
             (''name'', JStr ''test-workflow''),
             (''credentials'', JObj [(''user'', JStr ''bob''), (''password'', JStr ''[REDACTED]'')]),
             (''timeout'', JNum 30000)]"
  by code_simp

text \<open>
  An own property \<open>__proto__\<close> matches no sensitive pattern, and it is missing from the
  result.
\<close>

lemma proto_not_sensitive: "\<not> isSensitive ''__proto__''"
  by code_simp

lemma sanitizeForLogging_proto_key:
  "sanitizeForLogging (JObj [(''__proto__'', JObj [(''a'', JNum 1)]), (''user'', JStr ''bob'')]) 0
     = JObj [(''user'', JStr ''bob'')]"
  by code_simp

text \<open>
  C4. A \<open>null\<close> under a sensitive key is not replaced by \<open>[REDACTED]\<close>. The test of the
  source is \<open>typeof value !== 'object'\<close>, and \<open>typeof null\<close> is \<open>object\<close>: the \<open>null\<close> is
  passed to the recursive call, which returns it. In the same object, \<open>undefined\<close> under
  a sensitive key is redacted and the key that is not sensitive keeps its value.
\<close>

theorem sanitizeForLogging_null_under_sensitive_key:
  "isSensitive ''password'' \<and> isSensitive ''apiKey''
   \<and> sanitizeForLogging (JObj [(''password'', JNull), (''apiKey'', JUndefined), (''user'', JStr ''bob'')]) 0
       = JObj [(''password'', JNull), (''apiKey'', JStr ''[REDACTED]''), (''user'', JStr ''bob'')]"
  by code_simp

text \<open>
  C7. \<open>sanitizeForLogging\<close> is a total function on the finite values of \<open>jsval\<close>; no
  branch of the source throws. At every depth above 10 it returns the max-depth
  sentinel, whatever the value is, and the value it returns for a call at depth
  \<open>depth \<le> 11\<close> has at most \<open>11 - depth\<close> container levels. An object nested 15 levels
  deep comes back as 11 nested objects around the sentinel.
\<close>

theorem sanitizeForLogging_depth_bound:
  "(10 < depth \<longrightarrow> sanitizeForLogging v depth = JStr ''[MAX_DEPTH_REACHED]'')
   \<and> (depth \<le> 11 \<longrightarrow> levels (sanitizeForLogging v depth) \<le> nat (11 - depth))"
  using depth_guard [of depth v] levels_bound [of depth v] by simp

theorem sanitizeForLogging_depth_bound_witness:
  "sanitizeForLogging (nested 4 ''level'' (JStr ''bottom'')) 11 = JStr ''[MAX_DEPTH_REACHED]''
   \<and> sanitizeForLogging (nested 15 ''level'' (JStr ''bottom'')) 0
       = nested 11 ''level'' (JStr ''[MAX_DEPTH_REACHED]'')
   \<and> levels (sanitizeForLogging (nested 15 ''level'' (JStr ''bottom'')) 0) \<le> 11"
proof -
  have e: "sanitizeForLogging (nested 15 ''level'' (JStr ''bottom'')) 0
       = nested 11 ''level'' (JStr ''[MAX_DEPTH_REACHED]'')"
    by code_simp
  show ?thesis
    using sanitizeForLogging_depth_bound [of 11 "nested 4 ''level'' (JStr ''bottom'')"]
          sanitizeForLogging_depth_bound [of 0 "nested 15 ''level'' (JStr ''bottom'')"] e
    by simp
qed

text \<open>
  C10 (as amended). Values are compared by their own enumerable properties. A second
  pass of \<open>sanitizeForLogging\<close> at the same depth leaves the result of the first unchanged
  exactly when \<open>sensitive_within_bound\<close> holds of the input: no object copied at depth 10
  has a sensitive key whose value is an object, an array or \<open>null\<close>, where what lies
  under an own property \<open>__proto__\<close> is not copied and does not count. This holds of
  every input with \<open>levels v + depth \<le> 10\<close>. The three sentinels are fixed by the string
  branch.
\<close>

theorem sanitizeForLogging_idempotent_iff:
  "(sanitizeForLogging (sanitizeForLogging v depth) depth = sanitizeForLogging v depth)
     = sensitive_within_bound v depth
   \<and> (int (levels v) + depth \<le> 10 \<longrightarrow> sensitive_within_bound v depth)
   \<and> sanitize_string ''[REDACTED]'' = ''[REDACTED]''
   \<and> sanitize_string ''[REDACTED_STRING]'' = ''[REDACTED_STRING]''
   \<and> sanitize_string ''[MAX_DEPTH_REACHED]'' = ''[MAX_DEPTH_REACHED]''"
  using idem_if [of v depth] idem_only_if [of v depth] shallow_within_bound [of v depth]
  by (auto simp: sanitize_string_sentinels)

theorem sanitizeForLogging_idempotent_iff_witness:
  "sensitive_within_bound sample_permissions 0
   \<and> int (levels sample_permissions) + 0 \<le> 10
   \<and> sanitizeForLogging (sanitizeForLogging sample_permissions 0) 0 = sanitizeForLogging sample_permissions 0
   \<and> sensitive_within_bound deep_under_proto 0
   \<and> sanitizeForLogging (sanitizeForLogging deep_under_proto 0) 0 = sanitizeForLogging deep_under_proto 0
   \<and> \<not> sensitive_within_bound deep_token 0
   \<and> sanitizeForLogging (sanitizeForLogging deep_token 0) 0 \<noteq> sanitizeForLogging deep_token 0"
proof -
  have l: "int (levels sample_permissions) + 0 \<le> 10" by code_simp
  have p: "sensitive_within_bound deep_under_proto 0" by code_simp
  have n: "\<not> sensitive_within_bound deep_token 0" by code_simp
  show ?thesis
    using sanitizeForLogging_idempotent_iff [of sample_permissions 0]
          sanitizeForLogging_idempotent_iff [of deep_under_proto 0]
          sanitizeForLogging_idempotent_iff [of deep_token 0] l p n
    by simp
qed

text \<open>
  C10 as stated fails: under ten nested objects, the object value of the key \<open>token\<close>
  is replaced by the max-depth sentinel in the first pass, and that sentinel, now a string
  under a sensitive key, is replaced by \<open>[REDACTED]\<close> in the second.
\<close>

theorem sanitizeForLogging_idempotent_counterexample:
  "sanitizeForLogging deep_token 0 = nested 10 ''a'' (JObj [(''token'', JStr ''[MAX_DEPTH_REACHED]'')])
   \<and> sanitizeForLogging (sanitizeForLogging deep_token 0) 0 = nested 10 ''a'' (JObj [(''token'', JStr ''[REDACTED]'')])
   \<and> sanitizeForLogging (sanitizeForLogging deep_token 0) 0 \<noteq> sanitizeForLogging deep_token 0"
  by code_simp

section \<open>Theorems: configuration validation\<close>

lemma map_of_map_filter:
  "map_of (map (\<lambda>(k, x). (k, f k x)) (filter (\<lambda>(k, x). P k) fs)) k
     = (if P k then map_option (f k) (map_of fs k) else None)"
  by (induction fs) auto

lemma as_object_JObj [simp]: "as_object lib (JObj es) = JObj es"
  by (simp add: as_object_def)







lemma environments_schema_valid:
  assumes "fst (environments_schema lib p) = []"
  shows "\<exists>es. snd (environments_schema lib p) = JObj es \<and> 1 \<le> length es \<and> length es \<le> 10"
proof (cases p)
  case None
  with assms show ?thesis by (simp add: environments_schema_def)
next
  case (Some v)
  show ?thesis
  proof (cases "as_object lib v")
    case (JObj es0)
    let ?kept = "filter (\<lambda>(k, x). matches name_pattern k) es0"
    let ?results = "map (\<lambda>(k, x). (k, instance_schema lib [''environments'', k] x)) ?kept"
    from assms Some JObj have "\<not> length ?kept < 1 \<and> \<not> length ?kept > 10"
      by (auto simp: environments_schema_def Let_def split: if_splits)
    moreover from Some JObj have "snd (environments_schema lib p) = JObj (map (\<lambda>(k, r). (k, snd r)) ?results)"
      by (simp add: environments_schema_def Let_def)
    ultimately show ?thesis by (auto simp: Suc_le_eq)
  qed (use assms Some in \<open>simp_all add: environments_schema_def\<close>)
qed

lemma validateMultiInstanceConfig_returns:
  assumes "validateMultiInstanceConfig lib config = Inr c"
  shows "1 \<le> length (environments c) \<and> length (environments c) \<le> 10
         \<and> (defaultEnv c \<in> fst ` set (environments c) \<or> defaultEnv c \<in> set Object_prototype_names)"
proof -
  let ?r = "multiInstanceConfig_schema lib config"
  from assms have d: "fst ?r = []"
    by (auto simp: validateMultiInstanceConfig_def Let_def split: if_splits)
  from assms d obtain fs' es dn where v: "snd ?r = JObj fs'"
    and e: "map_of fs' ''environments'' = Some (JObj es)" and dd: "map_of fs' ''defaultEnv'' = Some (JStr dn)"
    and t: "truthy_property es dn" and c: "c = \<lparr>environments = es, defaultEnv = dn\<rparr>"
    by (auto simp: validateMultiInstanceConfig_def Let_def split: if_splits jsval.splits option.splits sum.splits)
  from v obtain fs where ao: "as_object lib config = JObj fs"
    by (auto simp: multiInstanceConfig_schema_def Let_def split: jsval.splits)
  let ?e = "environments_schema lib (map_of fs ''environments'')"
  from ao d have de: "fst ?e = []"
    by (simp add: multiInstanceConfig_schema_def Let_def)
  from ao v have "fs' = map (\<lambda>(k, x). (k, if k = ''environments'' then snd ?e else x))
                      (filter (\<lambda>(k, x). k = ''environments'' \<or> k = ''defaultEnv'') fs)"
    by (simp add: multiInstanceConfig_schema_def Let_def)
  then have "map_of fs' ''environments'' = map_option (\<lambda>x. snd ?e) (map_of fs ''environments'')"
    using map_of_map_filter [of "\<lambda>k x. if k = ''environments'' then snd ?e else x"
                                "\<lambda>k. k = ''environments'' \<or> k = ''defaultEnv''" fs "''environments''"]
    by (cases "map_of fs ''environments''") simp_all
  with e have "snd ?e = JObj es" by (cases "map_of fs ''environments''") auto
  with environments_schema_valid [OF de] have len: "1 \<le> length es \<and> length es \<le> 10" by auto
  from t have "dn \<in> fst ` set es \<or> dn \<in> set Object_prototype_names"
    by (auto simp: truthy_property_def split: option.splits dest: map_of_SomeD intro: rev_image_eqI)
  with len c show ?thesis by simp
qed

text \<open>
  What \<open>validateMultiInstanceConfig\<close> returns has between 1 and 10 environments, and
  its \<open>defaultEnv\<close> is the name of one of them or the name of a property of
  \<open>Object.prototype\<close> (lemma \<open>validateMultiInstanceConfig_returns\<close>).

  C8. The check \<open>!value.environments[value.defaultEnv]\<close> does not throw for a
  \<open>defaultEnv\<close> that names an inherited property: the configuration with the one
  environment \<open>production\<close> and \<open>defaultEnv\<close> \<open>constructor\<close> is returned, although
  \<open>constructor\<close> is not a key of its environments.
\<close>

theorem validateMultiInstanceConfig_inherited_name:
  assumes "uri_ok lib ''https://n8n.example.com''"
  shows "validateMultiInstanceConfig lib constructor_config
           = Inr \<lparr>environments = [(''production'', good_instance)], defaultEnv = ''constructor''\<rparr>
         \<and> ''constructor'' \<notin> fst ` set [(''production'', good_instance)]"
proof -
  have n: "matches name_pattern ''production''" "matches name_pattern ''constructor''"
          "matches name_pattern ''abcdefghij0123456789''"
    by code_simp+
  have i: "instance_schema lib p good_instance = ([], good_instance)" for p
    using assms n
    by (simp add: instance_schema_def good_instance_def n8n_host_rules_def n8n_api_key_rules_def)
  have e: "environments_schema lib (Some (JObj [(''production'', good_instance)]))
             = ([], JObj [(''production'', good_instance)])"
    using n i by (simp add: environments_schema_def Let_def)
  have m: "multiInstanceConfig_schema lib constructor_config = ([], constructor_config)"
    using n e by (simp add: multiInstanceConfig_schema_def constructor_config_def Let_def defaultEnv_rules_def)
  have t: "truthy_property [(''production'', good_instance)] ''constructor''"
    by (simp add: truthy_property_def Object_prototype_names_def)
  have v: "validate_each lib [(''production'', good_instance)] = Inr ()"
    using i by (simp add: validateN8NInstance_def Let_def)
  show ?thesis
    using m t v by (simp add: validateMultiInstanceConfig_def constructor_config_def Let_def)
qed

theorem validateMultiInstanceConfig_inherited_name_witness:
  "uri_ok sample_lib ''https://n8n.example.com''
   \<and> validateMultiInstanceConfig sample_lib constructor_config
        = Inr \<lparr>environments = [(''production'', good_instance)], defaultEnv = ''constructor''\<rparr>"
proof -
  have u: "uri_ok sample_lib ''https://n8n.example.com''" by code_simp
  show ?thesis using validateMultiInstanceConfig_inherited_name [OF u] u by simp
qed






section \<open>Theorems: configuration encryption\<close>







end
